theory Spec2Isabelle
  imports Main "HOL-Library.Sublist" "HOL-Library.Word"
begin

section \<open>The signer adapter of \<^verbatim>\<open>internal/cryptoutil\<close>\<close>

text \<open>
  A shallow embedding of \<^verbatim>\<open>internal/cryptoutil/cryptoutil.go\<close>. Go strings and byte
  slices are both byte sequences and are modelled by \<^typ>\<open>string\<close> (a list of 8-bit
  characters), so the conversion \<^verbatim>\<open>string(out)\<close> is the identity.
\<close>

subsection \<open>Values, errors and results\<close>

text \<open>
  The dynamic values that an \<^verbatim>\<open>interface{}\<close> (and so a \<^verbatim>\<open>crypto.PublicKey\<close>) can hold,
  as far as the type switches of the package distinguish them: the three public-key types
  named in the source, a value of some type that implements \<^verbatim>\<open>crypto.Signer\<close> (given by
  its identity and by what its \<^verbatim>\<open>Public()\<close> returns), and a value of any other type
  (a certificate, a certificate request, \<^verbatim>\<open>nil\<close>), given by the name of that type.
\<close>

datatype any =
    RSAPublicKey int int
  | ECDSAPublicKey string int int
  | Ed25519PublicKey string
  | SignerImpl string any
  | OtherValue string

type_synonym PublicKey = any

text \<open>
  Go errors. \<^verbatim>\<open>*exec.ExitError\<close> carries the text of the process state and the captured
  standard error; \<^verbatim>\<open>base64.CorruptInputError\<close> carries the offset; every other error
  value is identified with its message.
\<close>

datatype error =
    errorString string
  | ExitError string string
  | CorruptInputError nat

text \<open>A call either returns, returns an error, or panics.\<close>

datatype fault = Err error | Panic

type_synonym 'a result = "fault + 'a"

subsection \<open>Library functions of the Go runtime\<close>

fun digits10 :: "nat \<Rightarrow> string" where
  "digits10 n =
     (if n < 10 then [''0123456789'' ! n]
      else digits10 (n div 10) @ [''0123456789'' ! (n mod 10)])"

declare digits10.simps [simp del]

text \<open>\<^verbatim>\<open>strconv.Itoa\<close>: the decimal text of an integer.\<close>

definition Itoa :: "int \<Rightarrow> string" where
  "Itoa i = (if i < 0 then CHR ''-'' # digits10 (nat (- i)) else digits10 (nat i))"

text \<open>\<^verbatim>\<open>Error()\<close> of an error value.\<close>

fun Error :: "error \<Rightarrow> string" where
  "Error (errorString m) = m"
| "Error (ExitError st _) = st"
| "Error (CorruptInputError n) = ''illegal base64 data at input byte '' @ Itoa (int n)"

text \<open>
  \<^verbatim>\<open>crypto.Hash\<close> is a \<^verbatim>\<open>uint\<close>; the constants are those of package \<^verbatim>\<open>crypto\<close>
  (\<^verbatim>\<open>MD4 = 1\<close>, counting up). \<^verbatim>\<open>uint\<close> is taken to be 64 bits wide; the width matters
  only for the text of an unknown hash value, which \<^verbatim>\<open>Hash.String\<close> prints after the
  conversion \<^verbatim>\<open>int(h)\<close>.
\<close>

type_synonym Hash = "64 word"

definition SHA256 :: Hash where "SHA256 = 5"
definition SHA384 :: Hash where "SHA384 = 6"
definition SHA512 :: Hash where "SHA512 = 7"

definition Hash_String :: "Hash \<Rightarrow> string" where
  "Hash_String h =
     (if h = 1 then ''MD4''
      else if h = 2 then ''MD5''
      else if h = 3 then ''SHA-1''
      else if h = 4 then ''SHA-224''
      else if h = 5 then ''SHA-256''
      else if h = 6 then ''SHA-384''
      else if h = 7 then ''SHA-512''
      else if h = 8 then ''MD5+SHA1''
      else if h = 9 then ''RIPEMD-160''
      else if h = 10 then ''SHA3-224''
      else if h = 11 then ''SHA3-256''
      else if h = 12 then ''SHA3-384''
      else if h = 13 then ''SHA3-512''
      else if h = 14 then ''SHA-512/224''
      else if h = 15 then ''SHA-512/256''
      else if h = 16 then ''BLAKE2s-256''
      else if h = 17 then ''BLAKE2b-256''
      else if h = 18 then ''BLAKE2b-384''
      else if h = 19 then ''BLAKE2b-512''
      else ''unknown hash value '' @ Itoa (sint h))"

text \<open>
  \<^verbatim>\<open>crypto.SignerOpts\<close>: the interface value may be \<^verbatim>\<open>nil\<close>, a \<^verbatim>\<open>crypto.Hash\<close>, a
  \<^verbatim>\<open>*rsa.PSSOptions\<close> (a pointer, possibly nil, to a struct of salt length and hash), or a
  value of another type with its own \<^verbatim>\<open>HashFunc\<close>.
\<close>

datatype SignerOpts =
    NilOpts
  | HashOpts Hash
  | PSSOptions int Hash
  | PSSOptionsNil
  | OtherOpts Hash

text \<open>The type assertion \<^verbatim>\<open>opts.(*rsa.PSSOptions)\<close>.\<close>

fun is_PSSOptions :: "SignerOpts \<Rightarrow> bool" where
  "is_PSSOptions (PSSOptions _ _) = True"
| "is_PSSOptions PSSOptionsNil = True"
| "is_PSSOptions _ = False"

text \<open>
  \<^verbatim>\<open>opts.HashFunc()\<close>; \<open>None\<close> is the nil-dereference panic of a call through a nil
  interface or a nil \<^verbatim>\<open>*rsa.PSSOptions\<close>.
\<close>

fun HashFunc :: "SignerOpts \<Rightarrow> Hash option" where
  "HashFunc NilOpts = None"
| "HashFunc (HashOpts h) = Some h"
| "HashFunc (PSSOptions _ h) = Some h"
| "HashFunc PSSOptionsNil = None"
| "HashFunc (OtherOpts h) = Some h"

text \<open>
  \<^verbatim>\<open>strings.HasPrefix\<close> is \<^const>\<open>prefix\<close>. \<^verbatim>\<open>strings.ToLower\<close> and \<^verbatim>\<open>strconv.Quote\<close>
  (the verb \<^verbatim>\<open>%q\<close> of package \<^verbatim>\<open>fmt\<close>) are given in full on ASCII strings, as the Go
  library computes them; on a string with a byte of 0x80 or more they depend on the
  Unicode tables and are left to two functions of the environment.
\<close>

definition isASCII :: "string \<Rightarrow> bool" where
  "isASCII s = (\<forall>c \<in> set s. (of_char c :: nat) < 128)"

definition lowerByte :: "char \<Rightarrow> char" where
  "lowerByte c =
     (if (65::nat) \<le> of_char c \<and> (of_char c :: nat) \<le> 90 then char_of ((of_char c :: nat) + 32) else c)"

definition lowerhex :: string where
  "lowerhex = ''0123456789abcdef''"

definition escapeByte :: "char \<Rightarrow> string" where
  "escapeByte c =
     (let r = (of_char c :: nat) in
      if r = 34 \<or> r = 92 then [CHR 0x5C, c]
      else if 32 \<le> r \<and> r < 127 then [c]
      else if r = 7 then [CHR 0x5C, CHR ''a'']
      else if r = 8 then [CHR 0x5C, CHR ''b'']
      else if r = 12 then [CHR 0x5C, CHR ''f'']
      else if r = 10 then [CHR 0x5C, CHR ''n'']
      else if r = 13 then [CHR 0x5C, CHR ''r'']
      else if r = 9 then [CHR 0x5C, CHR ''t'']
      else if r = 11 then [CHR 0x5C, CHR ''v'']
      else [CHR 0x5C, CHR ''x'', lowerhex ! (r div 16), lowerhex ! (r mod 16)])"

definition quoteASCII :: "string \<Rightarrow> string" where
  "quoteASCII s = CHR 0x22 # concat (map escapeByte s) @ [CHR 0x22]"

subsection \<open>\<^verbatim>\<open>encoding/base64\<close>, the standard encoding\<close>

definition encodeStd :: string where
  "encodeStd = ''ABCDEFGHIJKLMNOPQRSTUVWXYZabcdefghijklmnopqrstuvwxyz0123456789+/''"

text \<open>The decode map of an encoding: 0xFF everywhere, then the index of each alphabet byte.\<close>

fun fillDecodeMap :: "string \<Rightarrow> nat \<Rightarrow> (char \<Rightarrow> nat) \<Rightarrow> (char \<Rightarrow> nat)" where
  "fillDecodeMap [] i m = m"
| "fillDecodeMap (e # es) i m = fillDecodeMap es (Suc i) (m(e := i))"

definition decodeMap :: "char \<Rightarrow> nat" where
  "decodeMap = fillDecodeMap encodeStd 0 (\<lambda>_. 255)"

text \<open>
  \<^verbatim>\<open>EncodeToString\<close>: three bytes make four characters; a remainder of one or two bytes is
  padded with \<^verbatim>\<open>=\<close>. This is what a plugin that answers with the base64 text of its input
  writes.
\<close>

fun EncodeToString :: "string \<Rightarrow> string" where
  "EncodeToString [] = []"
| "EncodeToString [a] =
     (let val = push_bit 16 (of_char a :: nat) in
      [encodeStd ! (and (drop_bit 18 val) 63), encodeStd ! (and (drop_bit 12 val) 63),
       CHR ''='', CHR ''=''])"
| "EncodeToString [a, b] =
     (let val = or (push_bit 16 (of_char a :: nat)) (push_bit 8 (of_char b)) in
      [encodeStd ! (and (drop_bit 18 val) 63), encodeStd ! (and (drop_bit 12 val) 63),
       encodeStd ! (and (drop_bit 6 val) 63), CHR ''=''])"
| "EncodeToString (a # b # c # rest) =
     (let val = or (or (push_bit 16 (of_char a :: nat)) (push_bit 8 (of_char b))) (of_char c) in
      [encodeStd ! (and (drop_bit 18 val) 63), encodeStd ! (and (drop_bit 12 val) 63),
       encodeStd ! (and (drop_bit 6 val) 63), encodeStd ! (and val 63)]
      @ EncodeToString rest)"

text \<open>The loop of \<^verbatim>\<open>decodeQuantum\<close> that skips \<^verbatim>\<open>\n\<close> and \<^verbatim>\<open>\r\<close> from position \<open>si\<close>.\<close>

fun skipNewlines :: "nat \<Rightarrow> string \<Rightarrow> nat \<times> string" where
  "skipNewlines si [] = (si, [])"
| "skipNewlines si (c # cs) =
     (if c = CHR 0x0A \<or> c = CHR 0x0D then skipNewlines (Suc si) cs else (si, c # cs))"

text \<open>
  The end of \<^verbatim>\<open>decodeQuantum\<close>: four 6-bit values make three bytes, of which
  \<open>dlen - 1\<close> are written.
\<close>

definition quantumBytes :: "nat list \<Rightarrow> nat \<Rightarrow> string" where
  "quantumBytes dbuf dlen =
     (let val = or (or (or (push_bit 18 (dbuf ! 0)) (push_bit 12 (dbuf ! 1)))
                       (push_bit 6 (dbuf ! 2))) (dbuf ! 3)
      in take (dlen - 1) [char_of (drop_bit 16 val), char_of (drop_bit 8 val), char_of val])"

text \<open>
  The end of a padded quantum: line breaks after the padding are skipped, anything else
  after it is an error, reported together with the bytes of the quantum.
\<close>

definition padEnd :: "nat \<Rightarrow> string \<Rightarrow> nat list \<Rightarrow> nat \<Rightarrow> nat \<times> string \<times> string \<times> error option" where
  "padEnd si cs dbuf j =
     (let (si', cs') = skipNewlines si cs in
      (si', cs', quantumBytes dbuf j, if cs' \<noteq> [] then Some (CorruptInputError si') else None))"

text \<open>
  \<^verbatim>\<open>decodeQuantum\<close>. The source is the list of bytes not yet read together with the
  position \<open>si\<close> of its head and the length \<open>len\<close> of the whole input; \<open>dbuf\<close> is the
  array of four values and \<open>j\<close> the loop counter. The result is the new position, the
  bytes left, the bytes decoded and the error.
\<close>

fun quantumLoop ::
  "nat \<Rightarrow> nat \<Rightarrow> nat \<Rightarrow> nat list \<Rightarrow> string \<Rightarrow> nat \<times> string \<times> string \<times> error option" where
  "quantumLoop len si j dbuf [] =
     (if 4 \<le> j then (si, [], quantumBytes dbuf 4, None)
      else if j = 0 then (si, [], [], None)
      else (si, [], [], Some (CorruptInputError (si - j))))"
| "quantumLoop len si j dbuf (c # cs) =
     (if 4 \<le> j then (si, c # cs, quantumBytes dbuf 4, None)
      else if decodeMap c \<noteq> 255 then quantumLoop len (Suc si) (Suc j) (dbuf[j := decodeMap c]) cs
      else if c = CHR 0x0A \<or> c = CHR 0x0D then quantumLoop len (Suc si) j dbuf cs
      else if c \<noteq> CHR ''='' then (Suc si, cs, [], Some (CorruptInputError si))
      else if j = 0 \<or> j = 1 then (Suc si, cs, [], Some (CorruptInputError si))
      else if j = 2 then
        (let (si2, cs2) = skipNewlines (Suc si) cs in
         if cs2 = [] then (si2, cs2, [], Some (CorruptInputError len))
         else if hd cs2 \<noteq> CHR ''='' then (si2, cs2, [], Some (CorruptInputError (si2 - 1)))
         else padEnd (Suc si2) (tl cs2) dbuf j)
      else padEnd (Suc si) cs dbuf j)"

definition decodeQuantum :: "nat \<Rightarrow> nat \<Rightarrow> string \<Rightarrow> nat \<times> string \<times> string \<times> error option" where
  "decodeQuantum len si cs = quantumLoop len si 0 [0, 0, 0, 0] cs"

text \<open>
  \<^verbatim>\<open>Decode\<close>: one quantum after the other until the input is empty or a quantum fails;
  the result is the decoded bytes so far and the error. (The source decodes eight or four
  alphabet bytes at once where it can and falls back to \<^verbatim>\<open>decodeQuantum\<close> otherwise;
  that changes no result.)
\<close>

function Decode :: "nat \<Rightarrow> nat \<Rightarrow> string \<Rightarrow> string \<times> error option" where
  "Decode len si cs =
     (if cs = [] then ([], None)
      else
        (case decodeQuantum len si cs of
           (si', cs', out, err) \<Rightarrow>
             if err \<noteq> None then (out, err)
             else (case Decode len si' cs' of (more, err') \<Rightarrow> (out @ more, err'))))"
  by pat_completeness auto
termination
proof -
  have skip: "length cs' \<le> length cs" if "skipNewlines si cs = (si', cs')"
    for si cs si' cs'
    using that by (induction si cs rule: skipNewlines.induct) (auto split: if_splits)
  have loop: "length cs' \<le> length cs" if "quantumLoop len si j dbuf cs = (si', cs', out, err)"
    for len si j dbuf cs si' cs' out err
    using that
  proof (induction len si j dbuf cs rule: quantumLoop.induct)
    case (1 len si j dbuf)
    then show ?case by (auto split: if_splits)
  next
    case (2 len si j dbuf c cs)
    then show ?case
      by (auto split: if_splits prod.splits simp: Let_def padEnd_def dest!: skip)
  qed
  have shorter: "length cs' < length cs"
    if "quantumLoop len si j dbuf cs = (si', cs', out, err)" and "j < 4" and "cs \<noteq> []"
    for len si j dbuf cs si' cs' out err
    using that
    by (cases cs)
       (auto split: if_splits prod.splits simp: Let_def padEnd_def dest!: skip loop)
  show ?thesis
    by (relation "measure (\<lambda>(len, si, cs). length cs)")
       (auto simp: decodeQuantum_def dest: shorter [OF sym])
qed

declare Decode.simps [simp del]

definition DecodeString :: "string \<Rightarrow> string \<times> error option" where
  "DecodeString s = Decode (length s) 0 s"

subsection \<open>\<^verbatim>\<open>os/exec\<close>\<close>

text \<open>
  \<^verbatim>\<open>exec.Cmd\<close>, its path and arguments. \<^verbatim>\<open>exec.Command\<close> is called with the path that
  \<^verbatim>\<open>plugin.LookPath\<close> returned, which it keeps as it is; \<^verbatim>\<open>Args\<close> starts with the
  command name. \<^verbatim>\<open>Cmd.String\<close> joins the path and the arguments after the first with
  spaces.
\<close>

record Cmd =
  Path :: string
  Args :: "string list"

definition exec_Command :: "string \<Rightarrow> string list \<Rightarrow> Cmd" where
  "exec_Command name arg = \<lparr>Path = name, Args = name # arg\<rparr>"

definition Cmd_String :: "Cmd \<Rightarrow> string" where
  "Cmd_String c = Path c @ concat (map (\<lambda>a. CHR '' '' # a) (tl (Args c)))"

subsection \<open>The environment and the state\<close>

text \<open>
  What lies outside the package: the collaborators \<^verbatim>\<open>pemutil.Read\<close>, \<^verbatim>\<open>pemutil.Parse\<close>
  and \<^verbatim>\<open>plugin.LookPath\<close>; whether \<^verbatim>\<open>cmd.StdinPipe()\<close> fails; what \<^verbatim>\<open>cmd.Output()\<close>
  returns for a command and the bytes offered on its standard input, which may differ
  from one child process to the next (the first argument is the number of children
  started before); and the two library functions on strings that are not ASCII.
\<close>

type_synonym Options = string

record env =
  pemutil_Read :: "string \<Rightarrow> Options list \<Rightarrow> error + any"
  pemutil_Parse :: "string \<Rightarrow> error + any"
  plugin_LookPath :: "string \<Rightarrow> error + string"
  StdinPipe :: "Cmd \<Rightarrow> error option"
  Output :: "nat \<Rightarrow> Cmd \<Rightarrow> string \<Rightarrow> error + string"
  ToLower_unicode :: "string \<Rightarrow> string"
  Quote_unicode :: "string \<Rightarrow> string"

definition strings_ToLower :: "env \<Rightarrow> string \<Rightarrow> string" where
  "strings_ToLower e s = (if isASCII s then map lowerByte s else ToLower_unicode e s)"

definition strconv_Quote :: "env \<Rightarrow> string \<Rightarrow> string" where
  "strconv_Quote e s = (if isASCII s then quoteASCII s else Quote_unicode e s)"

text \<open>
  The \<^verbatim>\<open>kmsSigner\<close> struct: the embedded public key, the path of the plugin, the kms
  and the key.
\<close>

record kmsSigner =
  PublicKey :: PublicKey
  name :: string
  kms :: string
  key :: string

text \<open>
  The state: the \<^verbatim>\<open>kmsSigner\<close> objects allocated so far (a pointer is an index into
  the heap), the names \<^verbatim>\<open>plugin.LookPath\<close> was called with, and the child processes
  started, each with the bytes offered on its standard input.
\<close>

record world =
  heap :: "kmsSigner list"
  lookups :: "string list"
  procs :: "(Cmd \<times> string) list"

definition deref :: "world \<Rightarrow> nat \<Rightarrow> kmsSigner option" where
  "deref w p = (if p < length (heap w) then Some (heap w ! p) else None)"

text \<open>
  A \<^verbatim>\<open>crypto.Signer\<close> value: a pointer to a \<^verbatim>\<open>kmsSigner\<close>, or a value of another
  implementing type, given by its identity and by what its \<^verbatim>\<open>Public()\<close> returns.
\<close>

datatype Signer = kmsSignerPtr nat | otherSigner string PublicKey

subsection \<open>The package\<close>

text \<open>\<^verbatim>\<open>exitError\<close>: the error displayed after running the given command.\<close>

definition exitError :: "env \<Rightarrow> Cmd \<Rightarrow> error \<Rightarrow> error" where
  "exitError e cmd err =
     (case err of
        ExitError st stderr \<Rightarrow>
          errorString (''command '' @ strconv_Quote e (Cmd_String cmd) @ '' failed with:''
                       @ [CHR 0x0A] @ stderr)
      | _ \<Rightarrow>
          errorString (''command '' @ strconv_Quote e (Cmd_String cmd) @ '' failed with: ''
                       @ Error err))"

text \<open>
  \<^verbatim>\<open>newKMSSigner\<close>: looks the plugin up, runs it for the public key (with nothing on its
  standard input), parses the output and allocates the signer.
\<close>

definition newKMSSigner :: "env \<Rightarrow> string \<Rightarrow> string \<Rightarrow> world \<Rightarrow> Signer result \<times> world" where
  "newKMSSigner e kms' key' w =
     (let w1 = w\<lparr>lookups := lookups w @ [''kms'']\<rparr> in
      case plugin_LookPath e ''kms'' of
        Inl err \<Rightarrow> (Inl (Err err), w1)
      | Inr name' \<Rightarrow>
          (let args = [''key''];
               args = (if kms' \<noteq> [] then args @ [''--kms'', kms'] else args);
               args = args @ [key'];
               cmd = exec_Command name' args;
               w2 = w1\<lparr>procs := procs w1 @ [(cmd, [])]\<rparr>
           in case Output e (length (procs w1)) cmd [] of
                Inl err \<Rightarrow> (Inl (Err (exitError e cmd err)), w2)
              | Inr out \<Rightarrow>
                  (case pemutil_Parse e out of
                     Inl err \<Rightarrow> (Inl (Err err), w2)
                   | Inr pub \<Rightarrow>
                       (Inr (kmsSignerPtr (length (heap w2))),
                        w2\<lparr>heap := heap w2 @
                           [\<lparr>PublicKey = pub, name = name', kms = kms', key = key'\<rparr>]\<rparr>))))"

text \<open>\<^verbatim>\<open>CreateSigner\<close>.\<close>

definition CreateSigner ::
  "env \<Rightarrow> string \<Rightarrow> string \<Rightarrow> Options list \<Rightarrow> world \<Rightarrow> Signer result \<times> world" where
  "CreateSigner e kms' name' opts w =
     (if kms' = [] then
        (case pemutil_Read e name' opts of
           Inl err \<Rightarrow> (Inl (Err err), w)
         | Inr s \<Rightarrow>
             (case s of
                SignerImpl k pub \<Rightarrow> (Inr (otherSigner k pub), w)
              | _ \<Rightarrow>
                  (Inl (Err (errorString
                     (''file '' @ name' @ '' does not contain a valid private key''))), w)))
      else newKMSSigner e kms' name' w)"

text \<open>\<^verbatim>\<open>IsKMSSigner\<close>.\<close>

fun IsKMSSigner :: "Signer \<Rightarrow> bool" where
  "IsKMSSigner (kmsSignerPtr _) = True"
| "IsKMSSigner (otherSigner _ _) = False"

text \<open>\<^verbatim>\<open>(*kmsSigner).Public\<close>; a pointer that is not in the heap is the nil pointer.\<close>

definition Public :: "world \<Rightarrow> nat \<Rightarrow> PublicKey result" where
  "Public w p = (case deref w p of None \<Rightarrow> Inl Panic | Some s \<Rightarrow> Inr (PublicKey s))"

text \<open>The call \<^verbatim>\<open>signer.Public()\<close> through the interface.\<close>

fun Signer_Public :: "world \<Rightarrow> Signer \<Rightarrow> PublicKey result" where
  "Signer_Public w (kmsSignerPtr p) = Public w p"
| "Signer_Public w (otherSigner _ pub) = Inr pub"

text \<open>\<^verbatim>\<open>IsX509Signer\<close>.\<close>

definition IsX509Signer :: "env \<Rightarrow> world \<Rightarrow> Signer \<Rightarrow> bool result" where
  "IsX509Signer e w signer =
     (case Signer_Public w signer of
        Inl f \<Rightarrow> Inl f
      | Inr pub \<Rightarrow>
          (if (case signer of
                 kmsSignerPtr p \<Rightarrow>
                   (case deref w p of
                      Some ks \<Rightarrow> prefix ''sshagentkms:'' (strings_ToLower e (kms ks))
                    | None \<Rightarrow> False)
               | otherSigner _ _ \<Rightarrow> False)
           then Inr (case pub of Ed25519PublicKey _ \<Rightarrow> True | _ \<Rightarrow> False)
           else Inr (case pub of
                       ECDSAPublicKey _ _ _ \<Rightarrow> True
                     | RSAPublicKey _ _ \<Rightarrow> True
                     | Ed25519PublicKey _ \<Rightarrow> True
                     | _ \<Rightarrow> False)))"

text \<open>
  The first part of \<^verbatim>\<open>(*kmsSigner).Sign\<close>, up to \<^verbatim>\<open>args = append(args, s.key)\<close>: the
  argument list, or the early return for a hash that is not supported.
\<close>

definition Sign_args :: "env \<Rightarrow> kmsSigner \<Rightarrow> SignerOpts \<Rightarrow> string list result" where
  "Sign_args e s opts =
     (let args = [''sign'', ''--format'', ''base64''];
          args = (if kms s \<noteq> [] then args @ [''--kms'', kms s] else args)
      in case PublicKey s of
           RSAPublicKey _ _ \<Rightarrow>
             (let args = (if is_PSSOptions opts then args @ [''--pss''] else args) in
              case HashFunc opts of
                None \<Rightarrow> Inl Panic
              | Some h \<Rightarrow>
                  if h = SHA256 then Inr (args @ [''--alg'', ''SHA256''] @ [key s])
                  else if h = SHA384 then Inr (args @ [''--alg'', ''SHA384''] @ [key s])
                  else if h = SHA512 then Inr (args @ [''--alg'', ''SHA512''] @ [key s])
                  else Inl (Err (errorString
                         (''unsupported hash function '' @ strconv_Quote e (Hash_String h)))))
         | _ \<Rightarrow> Inr (args @ [key s]))"

text \<open>
  \<^verbatim>\<open>(*kmsSigner).Sign\<close>. The reader \<open>rand\<close> is the bytes it would deliver. The digest
  is what the goroutine offers on the standard input of the child. The result is the pair
  that the method returns: the signature, where \<open>None\<close> is the nil slice, and the error,
  where \<open>None\<close> is the nil error (and \<open>Panic\<close> stands for a panic, which returns
  nothing). The last line hands on both results of \<^verbatim>\<open>DecodeString\<close> as they are: when
  decoding fails, the bytes decoded before the error are returned together with the error.
\<close>

type_synonym Reader = string

definition Sign ::
  "env \<Rightarrow> nat \<Rightarrow> Reader \<Rightarrow> string \<Rightarrow> SignerOpts \<Rightarrow> world
     \<Rightarrow> (string option \<times> fault option) \<times> world" where
  "Sign e p rand digest opts w =
     (case deref w p of
        None \<Rightarrow> ((None, Some Panic), w)
      | Some s \<Rightarrow>
          (case Sign_args e s opts of
             Inl f \<Rightarrow> ((None, Some f), w)
           | Inr args \<Rightarrow>
               (let cmd = exec_Command (name s) args in
                case StdinPipe e cmd of
                  Some err \<Rightarrow> ((None, Some (Err err)), w)
                | None \<Rightarrow>
                    (let w' = w\<lparr>procs := procs w @ [(cmd, digest)]\<rparr> in
                     case Output e (length (procs w)) cmd digest of
                       Inl err \<Rightarrow> ((None, Some (Err (exitError e cmd err))), w')
                     | Inr out \<Rightarrow>
                         (case DecodeString out of
                            (signature, err) \<Rightarrow> ((Some signature, map_option Err err), w'))))))"

subsection \<open>Auxiliary notions and a concrete environment\<close>

text \<open>
  A string of printable ASCII characters without the double quote and the backslash:
  \<^verbatim>\<open>strconv.Quote\<close> only puts such a string between double quotes.
\<close>

definition plain :: "string \<Rightarrow> bool" where
  "plain s = (\<forall>c \<in> set s. (32::nat) \<le> of_char c \<and> (of_char c :: nat) < 127
                \<and> (of_char c :: nat) \<noteq> 34 \<and> (of_char c :: nat) \<noteq> 92)"

text \<open>Some occurrence of \<open>x\<close> in the list comes before some occurrence of \<open>y\<close>.\<close>

fun occurs_before :: "'a \<Rightarrow> 'a \<Rightarrow> 'a list \<Rightarrow> bool" where
  "occurs_before x y [] = False"
| "occurs_before x y (z # zs) = ((z = x \<and> y \<in> set zs) \<or> occurs_before x y zs)"

text \<open>
  An environment for the examples: one key file and one certificate file, a plugin at
  \<^verbatim>\<open>/bin/step-kms-plugin\<close> whose key is an RSA key and which answers every request with the
  base64 text of its standard input.
\<close>

definition stubEnv :: env where
  "stubEnv =
     \<lparr>pemutil_Read =
        (\<lambda>n os. if n = ''key.pem'' then Inr (SignerImpl ''priv'' (Ed25519PublicKey ''pk''))
                 else if n = ''cert.pem'' then Inr (OtherValue ''*x509.Certificate'')
                 else Inl (errorString ''open: no such file or directory'')),
      pemutil_Parse = (\<lambda>b. Inr (RSAPublicKey 3233 17)),
      plugin_LookPath = (\<lambda>n. Inr ''/bin/step-kms-plugin''),
      StdinPipe = (\<lambda>c. None),
      Output = (\<lambda>n c i. Inr (EncodeToString i)),
      ToLower_unicode = (\<lambda>s. s),
      Quote_unicode = (\<lambda>s. s)\<rparr>"

definition rsaSigner :: kmsSigner where
  "rsaSigner =
     \<lparr>PublicKey = RSAPublicKey 3233 17, name = ''/bin/step-kms-plugin'',
      kms = ''pkcs11:m'', key = ''k1''\<rparr>"

definition edSigner :: kmsSigner where
  "edSigner =
     \<lparr>PublicKey = Ed25519PublicKey ''pk'', name = ''/bin/step-kms-plugin'',
      kms = [], key = ''k2''\<rparr>"

definition agentSigner :: kmsSigner where
  "agentSigner =
     \<lparr>PublicKey = RSAPublicKey 3233 17, name = ''/bin/step-kms-plugin'',
      kms = ''SSHAgentKMS:'', key = ''k3''\<rparr>"

definition agentEdSigner :: kmsSigner where
  "agentEdSigner =
     \<lparr>PublicKey = Ed25519PublicKey ''pk'', name = ''/bin/step-kms-plugin'',
      kms = ''SSHAgentKMS:'', key = ''k4''\<rparr>"

definition world0 :: world where
  "world0 =
     \<lparr>heap = [rsaSigner, edSigner, agentSigner, agentEdSigner], lookups = [], procs = []\<rparr>"


definition partialEnv :: env where
  "partialEnv = stubEnv\<lparr>Output := (\<lambda>n c i. Inr ''AAAA@'')\<rparr>"

subsection \<open>Sequences of calls\<close>

text \<open>
  The calls a client can make: the two methods of a \<^verbatim>\<open>kmsSigner\<close> through a pointer, the
  two predicates on a signer, and \<^verbatim>\<open>CreateSigner\<close>. \<open>invoke\<close> is the state after a call
  (its result is dropped), \<open>run\<close> the state after a sequence of calls.
\<close>

datatype call =
    Call_Public nat
  | Call_Sign nat Reader string SignerOpts
  | Call_IsKMSSigner Signer
  | Call_IsX509Signer Signer
  | Call_CreateSigner string string "Options list"

fun invoke :: "env \<Rightarrow> world \<Rightarrow> call \<Rightarrow> world" where
  "invoke e w (Call_Public p) = w"
| "invoke e w (Call_Sign p rand digest opts) = snd (Sign e p rand digest opts w)"
| "invoke e w (Call_IsKMSSigner signer) = w"
| "invoke e w (Call_IsX509Signer signer) = w"
| "invoke e w (Call_CreateSigner kms' name' opts) = snd (CreateSigner e kms' name' opts w)"

definition run :: "env \<Rightarrow> world \<Rightarrow> call list \<Rightarrow> world" where
  "run e w calls = foldl (invoke e) w calls"

subsection \<open>Well-formed base64 text\<close>

text \<open>
  Well-formed base64 text as the standard encoding of \<^verbatim>\<open>encoding/base64\<close> reads it: line
  breaks (\<^verbatim>\<open>\r\<close> and \<^verbatim>\<open>\n\<close>) are ignored; what remains is a sequence of groups of four
  alphabet characters, the last of which may end in \<^verbatim>\<open>=\<close> or \<^verbatim>\<open>==\<close>.
\<close>

definition isNewline :: "char \<Rightarrow> bool" where
  "isNewline c = (c = CHR 0x0A \<or> c = CHR 0x0D)"

abbreviation strip :: "string \<Rightarrow> string" where
  "strip \<equiv> filter (\<lambda>c. \<not> isNewline c)"

fun wellFormedQuanta :: "string \<Rightarrow> bool" where
  "wellFormedQuanta [] = True"
| "wellFormedQuanta [a, b, c, d] =
     (a \<in> set encodeStd \<and> b \<in> set encodeStd \<and>
      ((c \<in> set encodeStd \<and> (d \<in> set encodeStd \<or> d = CHR ''=''))
       \<or> (c = CHR ''='' \<and> d = CHR ''='')))"
| "wellFormedQuanta (a # b # c # d # rest) =
     (a \<in> set encodeStd \<and> b \<in> set encodeStd \<and> c \<in> set encodeStd \<and> d \<in> set encodeStd
      \<and> wellFormedQuanta rest)"
| "wellFormedQuanta _ = False"

definition wellFormedBase64 :: "string \<Rightarrow> bool" where
  "wellFormedBase64 s = wellFormedQuanta (strip s)"

text \<open>
  The same language, read one character at a time from the state \<open>j\<close> of the loop
  counter of \<^verbatim>\<open>decodeQuantum\<close>.
\<close>

fun accepts :: "nat \<Rightarrow> string \<Rightarrow> bool" where
  "accepts j [] = (j = 0)"
| "accepts j (c # t) =
     (if c \<in> set encodeStd then accepts (if j = 3 then 0 else Suc j) t
      else c = CHR ''='' \<and> ((j = 2 \<and> t = [CHR ''='']) \<or> (j = 3 \<and> t = [])))"

text \<open>The 24-bit value that \<^verbatim>\<open>Encode\<close> makes of three bytes.\<close>

definition val3 :: "char \<Rightarrow> char \<Rightarrow> char \<Rightarrow> nat" where
  "val3 a b c = or (or (push_bit 16 (of_char a)) (push_bit 8 (of_char b))) (of_char c)"

section \<open>Properties\<close>

subsection \<open>Quoting\<close>

lemma concat_escapeByte_plain: "plain s \<Longrightarrow> concat (map escapeByte s) = s"
  by (induction s) (auto simp: plain_def escapeByte_def Let_def)

lemma quote_plain: "plain s \<Longrightarrow> strconv_Quote e s = CHR 0x22 # s @ [CHR 0x22]"
proof -
  assume p: "plain s"
  then have "isASCII s" by (auto simp: plain_def isASCII_def)
  with p show ?thesis
    by (simp add: strconv_Quote_def quoteASCII_def concat_escapeByte_plain)
qed

lemma plain_digits10: "plain (digits10 n)"
proof (induction n rule: digits10.induct)
  case (1 n)
  have d: "plain [''0123456789'' ! k]" if "k < 10" for k :: nat
  proof -
    from that have "k \<in> {0, 1, 2, 3, 4, 5, 6, 7, 8, 9}" by auto
    then show ?thesis by (auto simp: plain_def)
  qed
  show ?case
  proof (cases "n < 10")
    case True
    then show ?thesis using d [of n] by (subst digits10.simps) simp
  next
    case False
    then have "plain (digits10 (n div 10))" using 1 by simp
    moreover have "plain [''0123456789'' ! (n mod 10)]" using d [of "n mod 10"] by simp
    ultimately show ?thesis using False
      by (subst digits10.simps) (auto simp: plain_def)
  qed
qed

lemma plain_Itoa: "plain (Itoa i)"
  using plain_digits10 by (auto simp: Itoa_def plain_def)

lemma plain_Hash_String: "plain (Hash_String h)"
proof -
  have "plain (''unknown hash value '' @ Itoa (sint h))"
    using plain_Itoa [of "sint h"] by (auto simp: plain_def)
  then show ?thesis
    by (auto simp: Hash_String_def plain_def)
qed

subsection \<open>The base64 decoder\<close>

lemma pad_notin: "CHR ''='' \<notin> set encodeStd"
  by (simp add: encodeStd_def)

lemma wellFormedQuanta_accepts: "wellFormedQuanta t = accepts 0 t"
  by (induction t rule: wellFormedQuanta.induct) (auto simp: pad_notin)

lemma fillDecodeMap_notin: "c \<notin> set es \<Longrightarrow> fillDecodeMap es i m c = m c"
  by (induction es i m rule: fillDecodeMap.induct) auto

lemma fillDecodeMap_nth:
  "distinct es \<Longrightarrow> k < length es \<Longrightarrow> fillDecodeMap es i m (es ! k) = i + k"
proof (induction es i m arbitrary: k rule: fillDecodeMap.induct)
  case (1 i m)
  then show ?case by simp
next
  case (2 e es i m)
  show ?case
  proof (cases k)
    case 0
    then show ?thesis using "2.prems" by (simp add: fillDecodeMap_notin)
  next
    case (Suc k')
    have "fillDecodeMap es (Suc i) (m(e := i)) (es ! k') = Suc i + k'"
      using "2.prems" Suc by (intro "2.IH") auto
    then show ?thesis using Suc by simp
  qed
qed

lemma distinct_encodeStd: "distinct encodeStd"
  by (simp add: encodeStd_def)

lemma length_encodeStd: "length encodeStd = 64"
  by (simp add: encodeStd_def)

lemma decodeMap_encodeStd: "k < 64 \<Longrightarrow> decodeMap (encodeStd ! k) = k"
  using fillDecodeMap_nth [OF distinct_encodeStd, of k 0]
  by (simp add: decodeMap_def length_encodeStd)

lemma decodeMap_255: "decodeMap c = 255 \<longleftrightarrow> c \<notin> set encodeStd"
proof
  assume "decodeMap c = 255"
  show "c \<notin> set encodeStd"
  proof
    assume "c \<in> set encodeStd"
    then obtain k where "k < 64" "encodeStd ! k = c"
      by (auto simp: in_set_conv_nth length_encodeStd)
    then have "decodeMap c = k" using decodeMap_encodeStd by auto
    with \<open>k < 64\<close> \<open>decodeMap c = 255\<close> show False by simp
  qed
next
  assume "c \<notin> set encodeStd"
  then show "decodeMap c = 255" by (simp add: decodeMap_def fillDecodeMap_notin)
qed

lemma newline_notin: "isNewline c \<Longrightarrow> c \<notin> set encodeStd"
proof -
  assume "isNewline c"
  then consider "c = CHR 0x0A" | "c = CHR 0x0D" by (auto simp: isNewline_def)
  then show ?thesis by cases (simp_all add: encodeStd_def)
qed

lemma pad_not_newline: "\<not> isNewline CHR ''=''"
  by (simp add: isNewline_def)

lemma skipNewlines_eq:
  "skipNewlines si cs = (si + length (takeWhile isNewline cs), dropWhile isNewline cs)"
  by (induction si cs rule: skipNewlines.induct) (auto simp: isNewline_def)

lemma strip_dropWhile: "strip (dropWhile isNewline cs) = strip cs"
  by (induction cs) auto

lemma dropWhile_Nil_strip: "dropWhile isNewline cs = [] \<longleftrightarrow> strip cs = []"
  by (simp add: dropWhile_eq_Nil_conv filter_empty_conv)

lemma dropWhile_Cons_strip:
  "dropWhile isNewline cs = x # xs \<Longrightarrow> strip cs = x # strip xs"
proof -
  assume a: "dropWhile isNewline cs = x # xs"
  have "\<not> isNewline x" if "dropWhile isNewline ys = x # xs" for ys
    using that by (induction ys) (auto split: if_splits)
  with a have "\<not> isNewline x" by blast
  moreover have "strip cs = strip (x # xs)" using a strip_dropWhile [of cs] by simp
  ultimately show ?thesis by simp
qed

lemma Decode_Nil: "Decode len si [] = ([], None)"
  by (simp add: Decode.simps)

lemma snd_Decode_Cons:
  "cs \<noteq> [] \<Longrightarrow>
   snd (Decode len si cs) =
     (case quantumLoop len si 0 [0, 0, 0, 0] cs of
        (si', cs', out, err) \<Rightarrow> if err \<noteq> None then err else snd (Decode len si' cs'))"
  by (subst Decode.simps) (auto simp: decodeQuantum_def split: prod.splits)


lemma decodeMap_pad: "decodeMap CHR ''='' = 255"
  using decodeMap_255 pad_notin by simp

lemma step_full: "quantumLoop len si 4 dbuf cs = (si, cs, quantumBytes dbuf 4, None)"
  by (cases cs) simp_all

lemma step_alpha:
  "c \<in> set encodeStd \<Longrightarrow> j < 4 \<Longrightarrow>
   quantumLoop len si j dbuf (c # cs) = quantumLoop len (Suc si) (Suc j) (dbuf[j := decodeMap c]) cs"
  using decodeMap_255 [of c] by simp

lemma step_newline:
  "isNewline c \<Longrightarrow> j < 4 \<Longrightarrow>
   quantumLoop len si j dbuf (c # cs) = quantumLoop len (Suc si) j dbuf cs"
  using decodeMap_255 [of c] newline_notin [of c] by (simp add: isNewline_def)

lemma step_bad:
  "c \<notin> set encodeStd \<Longrightarrow> \<not> isNewline c \<Longrightarrow> c \<noteq> CHR ''='' \<Longrightarrow> j < 4 \<Longrightarrow>
   quantumLoop len si j dbuf (c # cs) = (Suc si, cs, [], Some (CorruptInputError si))"
  using decodeMap_255 [of c] by (simp add: isNewline_def)

lemma step_pad01:
  "j = 0 \<or> j = 1 \<Longrightarrow>
   quantumLoop len si j dbuf (CHR ''='' # cs) = (Suc si, cs, [], Some (CorruptInputError si))"
  by (auto simp: decodeMap_pad)

lemma step_pad3:
  "quantumLoop len si 3 dbuf (CHR ''='' # cs) =
     (Suc si + length (takeWhile isNewline cs), dropWhile isNewline cs, quantumBytes dbuf 3,
      if dropWhile isNewline cs \<noteq> [] then Some (CorruptInputError (Suc si + length (takeWhile isNewline cs)))
      else None)"
  by (simp add: skipNewlines_eq decodeMap_pad padEnd_def)

lemma step_pad2_short:
  "dropWhile isNewline cs = [] \<Longrightarrow>
   quantumLoop len si 2 dbuf (CHR ''='' # cs) =
     (Suc si + length (takeWhile isNewline cs), [], [], Some (CorruptInputError len))"
  by (simp add: skipNewlines_eq decodeMap_pad padEnd_def)

lemma step_pad2_wrong:
  "dropWhile isNewline cs = x # xs \<Longrightarrow> x \<noteq> CHR ''='' \<Longrightarrow>
   quantumLoop len si 2 dbuf (CHR ''='' # cs) =
     (Suc si + length (takeWhile isNewline cs), x # xs, [],
      Some (CorruptInputError (si + length (takeWhile isNewline cs))))"
  by (simp add: skipNewlines_eq decodeMap_pad padEnd_def)

lemma step_pad2:
  "dropWhile isNewline cs = CHR ''='' # xs \<Longrightarrow>
   quantumLoop len si 2 dbuf (CHR ''='' # cs) =
     (Suc (Suc si) + length (takeWhile isNewline cs) + length (takeWhile isNewline xs),
      dropWhile isNewline xs, quantumBytes dbuf 2,
      if dropWhile isNewline xs \<noteq> []
      then Some (CorruptInputError (Suc (Suc si) + length (takeWhile isNewline cs) + length (takeWhile isNewline xs)))
      else None)"
  by (simp add: skipNewlines_eq decodeMap_pad padEnd_def)


lemma step_pad3_end:
  assumes "dropWhile isNewline cs = []"
  shows "quantumLoop len si 3 dbuf (CHR ''='' # cs) =
           (Suc si + length (takeWhile isNewline cs), [], quantumBytes dbuf 3, None)"
  unfolding step_pad3 assms by simp

lemma step_pad3_garbage:
  assumes "dropWhile isNewline cs \<noteq> []"
  shows "\<exists>si' cs' out e. quantumLoop len si 3 dbuf (CHR ''='' # cs) = (si', cs', out, Some e)"
  unfolding step_pad3 using assms by simp

lemma step_pad2_end:
  assumes "dropWhile isNewline cs = CHR ''='' # xs" and "dropWhile isNewline xs = []"
  shows "quantumLoop len si 2 dbuf (CHR ''='' # cs) =
           (Suc (Suc si) + length (takeWhile isNewline cs) + length (takeWhile isNewline xs),
            [], quantumBytes dbuf 2, None)"
  unfolding step_pad2 [OF assms(1)] assms(2) by simp

lemma step_pad2_garbage:
  assumes "dropWhile isNewline cs = CHR ''='' # xs" and "dropWhile isNewline xs \<noteq> []"
  shows "\<exists>si' cs' out e. quantumLoop len si 2 dbuf (CHR ''='' # cs) = (si', cs', out, Some e)"
  unfolding step_pad2 [OF assms(1)] using assms(2) by simp

lemma quantum_accepts:
  "j < 4 \<Longrightarrow>
   (case quantumLoop len si j dbuf cs of
      (si', cs', out, err) \<Rightarrow> err = None \<and> snd (Decode len si' cs') = None)
   \<longleftrightarrow> accepts j (strip cs)"
proof (induction cs arbitrary: si j dbuf)
  case Nil
  then show ?case by (auto simp: Decode_Nil)
next
  case (Cons c cs)
  show ?case
  proof (cases "c \<in> set encodeStd")
    case alpha: True
    then have nn: "\<not> isNewline c" using newline_notin by auto
    show ?thesis
    proof (cases "j = 3")
      case True
      have "snd (Decode len (Suc si) cs) = None \<longleftrightarrow> accepts 0 (strip cs)"
      proof (cases cs)
        case Nil
        then show ?thesis by (simp add: Decode_Nil)
      next
        case (Cons a list)
        then have "cs \<noteq> []" by simp
        obtain si' cs' out err
          where q: "quantumLoop len (Suc si) 0 [0, 0, 0, 0] cs = (si', cs', out, err)"
          using prod_cases4 by blast
        from snd_Decode_Cons [OF \<open>cs \<noteq> []\<close>, of len "Suc si"]
        have "snd (Decode len (Suc si) cs) = (if err \<noteq> None then err else snd (Decode len si' cs'))"
          by (simp add: q)
        moreover from Cons.IH [of 0 "Suc si" "[0, 0, 0, 0]"]
        have "(err = None \<and> snd (Decode len si' cs') = None) = accepts 0 (strip cs)"
          by (simp add: q)
        ultimately show ?thesis by (cases err) auto
      qed
      then show ?thesis
        using True nn alpha
        by (simp add: step_alpha step_full del: quantumLoop.simps)
    next
      case False
      with Cons.prems have "Suc j < 4" by simp
      from Cons.IH [OF this, of "Suc si" "dbuf[j := decodeMap c]"]
      show ?thesis
        using False Cons.prems nn alpha
        by (simp add: step_alpha del: quantumLoop.simps)
    qed
  next
    case notalpha: False
    show ?thesis
    proof (cases "isNewline c")
      case True
      with Cons.IH [OF Cons.prems, of "Suc si" dbuf] Cons.prems
      show ?thesis by (simp add: step_newline del: quantumLoop.simps)
    next
      case nonl: False
      show ?thesis
      proof (cases "c = CHR ''=''")
        case False
        then show ?thesis
          using nonl notalpha Cons.prems by (simp add: step_bad del: quantumLoop.simps)
      next
        case True
        consider "j = 0 \<or> j = 1" | "j = 2" | "j = 3" using Cons.prems by linarith
        then show ?thesis
        proof cases
          case 1
          then have "quantumLoop len si j dbuf (c # cs) = (Suc si, cs, [], Some (CorruptInputError si))"
            using True step_pad01 by simp
          then show ?thesis
            using 1 nonl notalpha True by (cases "j = 0") (simp_all del: quantumLoop.simps)
        next
          case 2
          show ?thesis
          proof (cases "dropWhile isNewline cs")
            case Nil
            then have "strip cs = []" using dropWhile_Nil_strip [of cs] by blast
            then show ?thesis
              using 2 nonl notalpha True step_pad2_short [OF Nil, of len si dbuf]
              by (simp del: quantumLoop.simps)
          next
            case (Cons x xs)
            from dropWhile_Cons_strip [OF this] have st: "strip cs = x # strip xs" .
            show ?thesis
            proof (cases "x = CHR ''=''")
              case False
              then show ?thesis
                using 2 nonl notalpha True st step_pad2_wrong [OF Cons False, of len si dbuf]
                by (simp del: quantumLoop.simps)
            next
              case px: True
              with Cons have dw: "dropWhile isNewline cs = CHR ''='' # xs" by simp
              show ?thesis
              proof (cases "dropWhile isNewline xs = []")
                case dn: True
                then have "strip xs = []" using dropWhile_Nil_strip [of xs] by blast
                then show ?thesis
                  using 2 nonl notalpha True st px step_pad2_end [OF dw dn, of len si dbuf]
                  by (simp add: Decode_Nil del: quantumLoop.simps)
              next
                case dn: False
                then have "strip xs \<noteq> []" using dropWhile_Nil_strip [of xs] by blast
                moreover from step_pad2_garbage [OF dw dn, of len si dbuf]
                obtain si' cs' out e
                  where "quantumLoop len si 2 dbuf (CHR ''='' # cs) = (si', cs', out, Some e)"
                  by blast
                ultimately show ?thesis
                  using 2 nonl notalpha True st px
                  by (simp del: quantumLoop.simps)
              qed
            qed
          qed
        next
          case 3
          show ?thesis
          proof (cases "dropWhile isNewline cs = []")
            case dn: True
            then have "strip cs = []" using dropWhile_Nil_strip [of cs] by blast
            then show ?thesis
              using 3 nonl notalpha True step_pad3_end [OF dn, of len si dbuf]
              by (simp add: Decode_Nil del: quantumLoop.simps)
          next
            case dn: False
            then have "strip cs \<noteq> []" using dropWhile_Nil_strip [of cs] by blast
            moreover from step_pad3_garbage [OF dn, of len si dbuf]
            obtain si' cs' out e
              where "quantumLoop len si 3 dbuf (CHR ''='' # cs) = (si', cs', out, Some e)"
              by blast
            ultimately show ?thesis
              using 3 nonl notalpha True
              by (simp del: quantumLoop.simps)
          qed
        qed
      qed
    qed
  qed
qed

lemma Decode_ok_iff: "snd (Decode len si cs) = None \<longleftrightarrow> accepts 0 (strip cs)"
proof (cases cs)
  case Nil
  then show ?thesis by (simp add: Decode_Nil)
next
  case (Cons a list)
  then have "cs \<noteq> []" by simp
  obtain si' cs' out err
    where q: "quantumLoop len si 0 [0, 0, 0, 0] cs = (si', cs', out, err)"
    using prod_cases4 by blast
  from snd_Decode_Cons [OF \<open>cs \<noteq> []\<close>, of len si]
  have "snd (Decode len si cs) = (if err \<noteq> None then err else snd (Decode len si' cs'))"
    by (simp add: q)
  moreover from quantum_accepts [of 0 len si "[0, 0, 0, 0]" cs]
  have "(err = None \<and> snd (Decode len si' cs') = None) = accepts 0 (strip cs)"
    by (simp add: q)
  ultimately show ?thesis by (cases err) auto
qed

lemma DecodeString_ok_iff: "snd (DecodeString s) = None \<longleftrightarrow> wellFormedBase64 s"
  by (simp add: DecodeString_def Decode_ok_iff wellFormedBase64_def wellFormedQuanta_accepts)


lemma quantumLoop_error_kind:
  "quantumLoop len si j dbuf cs = (si', cs', out, Some err) \<Longrightarrow> \<exists>n. err = CorruptInputError n"
  by (induction len si j dbuf cs rule: quantumLoop.induct)
     (auto split: if_splits prod.splits simp: Let_def padEnd_def)

lemma Decode_error_kind:
  "snd (Decode len si cs) = Some err \<Longrightarrow> \<exists>n. err = CorruptInputError n"
proof (induction len si cs rule: Decode.induct)
  case (1 len si cs)
  show ?case
  proof (cases "cs = []")
    case True
    with 1 show ?thesis by (simp add: Decode_Nil)
  next
    case False
    obtain si' cs' out e
      where q: "quantumLoop len si 0 [0, 0, 0, 0] cs = (si', cs', out, e)"
      using prod_cases4 by blast
    from snd_Decode_Cons [OF False, of len si]
    have d: "snd (Decode len si cs) = (if e \<noteq> None then e else snd (Decode len si' cs'))"
      by (simp add: q)
    show ?thesis
    proof (cases e)
      case None
      with d "1.prems" have "snd (Decode len si' cs') = Some err" by simp
      then show ?thesis
        using False q None
        by (intro "1.IH" [of si' "(cs', out, e)" cs' "(out, e)" out e])
           (simp_all add: decodeQuantum_def)
    next
      case (Some a)
      with d "1.prems" have "e = Some err" by simp
      with q quantumLoop_error_kind show ?thesis by blast
    qed
  qed
qed

subsection \<open>Decoding what was encoded\<close>

lemma bit_of_char_ge8: "8 \<le> n \<Longrightarrow> \<not> bit (of_char c :: nat) n"
proof -
  assume "8 \<le> n"
  have "take_bit 8 (of_char c :: nat) = of_char c"
    by (simp add: take_bit_eq_mod)
  then have "bit (of_char c :: nat) n = bit (take_bit 8 (of_char c :: nat)) n" by simp
  also have "\<dots> = False" using \<open>8 \<le> n\<close> by (simp add: bit_take_bit_iff)
  finally show ?thesis by simp
qed

lemma bit_of_char_lt8: "bit (of_char c :: nat) n \<Longrightarrow> n < 8"
  using bit_of_char_ge8 [of n c] by (cases "n < 8") auto

lemma and63_lt: "and (x::nat) 63 < 64"
proof -
  have "and x 63 = take_bit 6 x" by (simp add: take_bit_eq_mask mask_eq_exp_minus_1)
  then show ?thesis by (simp add: take_bit_eq_mod)
qed

lemma encodeStd_nth_in: "encodeStd ! (and x 63) \<in> set encodeStd"
  using and63_lt [of x] by (simp add: length_encodeStd)

lemma decodeMap_sextet: "decodeMap (encodeStd ! (and x 63)) = and x 63"
  using and63_lt [of x] by (simp add: decodeMap_encodeStd)

lemma recombine:
  fixes val :: nat
  assumes hi: "\<And>n. 24 \<le> n \<Longrightarrow> \<not> bit val n"
  shows "or (or (or (push_bit 18 (and (drop_bit 18 val) 63)) (push_bit 12 (and (drop_bit 12 val) 63)))
                (push_bit 6 (and (drop_bit 6 val) 63))) (and val 63) = val"
proof -
  have m: "(63::nat) = mask 6" by (simp add: mask_eq_exp_minus_1)
  show ?thesis
    unfolding m
  proof (rule bit_eqI)
    fix n :: nat
    consider "n < 6" | "6 \<le> n \<and> n < 12" | "12 \<le> n \<and> n < 18" | "18 \<le> n \<and> n < 24" | "24 \<le> n"
      by linarith
    then show "bit (or (or (or (push_bit 18 (and (drop_bit 18 val) (mask 6)))
                               (push_bit 12 (and (drop_bit 12 val) (mask 6))))
                           (push_bit 6 (and (drop_bit 6 val) (mask 6)))) (and val (mask 6))) n
               = bit val n"
      by cases (use hi in \<open>auto simp: bit_simps\<close>)
  qed
qed

lemma recombine3:
  fixes val :: nat
  assumes hi: "\<And>n. 24 \<le> n \<Longrightarrow> \<not> bit val n" and lo: "\<And>n. n < 8 \<Longrightarrow> \<not> bit val n"
  shows "or (or (or (push_bit 18 (and (drop_bit 18 val) 63)) (push_bit 12 (and (drop_bit 12 val) 63)))
                (push_bit 6 (and (drop_bit 6 val) 63))) 0 = val"
proof -
  have "and val 63 = 0"
  proof (rule bit_eqI)
    fix n :: nat
    have m: "(63::nat) = mask 6" by (simp add: mask_eq_exp_minus_1)
    show "bit (and val 63) n = bit (0::nat) n"
      unfolding m using lo [of n] by (auto simp: bit_simps)
  qed
  with recombine [OF hi] show ?thesis by simp
qed

lemma recombine2:
  fixes val :: nat
  assumes hi: "\<And>n. 24 \<le> n \<Longrightarrow> \<not> bit val n" and lo: "\<And>n. n < 16 \<Longrightarrow> \<not> bit val n"
  shows "or (or (or (push_bit 18 (and (drop_bit 18 val) 63)) (push_bit 12 (and (drop_bit 12 val) 63)))
                (push_bit 6 0)) 0 = val"
proof -
  have "and (drop_bit 6 val) 63 = 0"
  proof (rule bit_eqI)
    fix n :: nat
    have m: "(63::nat) = mask 6" by (simp add: mask_eq_exp_minus_1)
    show "bit (and (drop_bit 6 val) 63) n = bit (0::nat) n"
      unfolding m using lo [of "6 + n"] by (auto simp: bit_simps)
  qed
  moreover have "\<And>n. n < 8 \<Longrightarrow> \<not> bit val n" using lo by simp
  ultimately show ?thesis using recombine3 [OF hi, of ] by simp
qed

lemma val3_hi: "24 \<le> n \<Longrightarrow> \<not> bit (val3 a b c) n"
  by (auto simp: val3_def bit_simps bit_of_char_ge8)

lemma val3_bytes:
  "char_of (drop_bit 16 (val3 a b c)) = a"
  "char_of (drop_bit 8 (val3 a b c)) = b"
  "char_of (val3 a b c) = c"
proof -
  have "char_of (drop_bit 16 (val3 a b c)) = char_of (of_char a :: nat)"
    unfolding char_of_eq_iff
    by (rule bit_eqI) (auto simp: val3_def bit_simps bit_of_char_ge8 dest: bit_of_char_lt8)
  then show "char_of (drop_bit 16 (val3 a b c)) = a" by simp
  have "char_of (drop_bit 8 (val3 a b c)) = char_of (of_char b :: nat)"
    unfolding char_of_eq_iff
    by (rule bit_eqI) (auto simp: val3_def bit_simps bit_of_char_ge8 dest: bit_of_char_lt8)
  then show "char_of (drop_bit 8 (val3 a b c)) = b" by simp
  have "char_of (val3 a b c) = char_of (of_char c :: nat)"
    unfolding char_of_eq_iff
    by (rule bit_eqI) (auto simp: val3_def bit_simps bit_of_char_ge8 dest: bit_of_char_lt8)
  then show "char_of (val3 a b c) = c" by simp
qed


lemma quantum_full:
  assumes "c0 \<in> set encodeStd" "c1 \<in> set encodeStd" "c2 \<in> set encodeStd" "c3 \<in> set encodeStd"
  shows "quantumLoop len si 0 [0, 0, 0, 0] (c0 # c1 # c2 # c3 # rest) =
           (si + 4, rest, quantumBytes [decodeMap c0, decodeMap c1, decodeMap c2, decodeMap c3] 4, None)"
proof -
  have "quantumLoop len si 0 [0, 0, 0, 0] (c0 # c1 # c2 # c3 # rest) =
          quantumLoop len (Suc si) 1 [decodeMap c0, 0, 0, 0] (c1 # c2 # c3 # rest)"
    using step_alpha [OF assms(1), of 0 len si "[0, 0, 0, 0]"] by simp
  also have "\<dots> = quantumLoop len (Suc (Suc si)) 2 [decodeMap c0, decodeMap c1, 0, 0] (c2 # c3 # rest)"
    using step_alpha [OF assms(2), of 1 len "Suc si" "[decodeMap c0, 0, 0, 0]"]
    by (simp add: eval_nat_numeral)
  also have "\<dots> = quantumLoop len (Suc (Suc (Suc si))) 3
                       [decodeMap c0, decodeMap c1, decodeMap c2, 0] (c3 # rest)"
    using step_alpha [OF assms(3), of 2 len "Suc (Suc si)" "[decodeMap c0, decodeMap c1, 0, 0]"]
    by (simp add: eval_nat_numeral)
  also have "\<dots> = quantumLoop len (Suc (Suc (Suc (Suc si)))) 4
                       [decodeMap c0, decodeMap c1, decodeMap c2, decodeMap c3] rest"
    using step_alpha [OF assms(4), of 3 len "Suc (Suc (Suc si))"
        "[decodeMap c0, decodeMap c1, decodeMap c2, 0]"]
    by (simp add: eval_nat_numeral)
  also have "\<dots> = (si + 4, rest,
                      quantumBytes [decodeMap c0, decodeMap c1, decodeMap c2, decodeMap c3] 4, None)"
    by (simp add: step_full del: quantumLoop.simps)
  finally show ?thesis .
qed

lemma quantum_three:
  assumes "c0 \<in> set encodeStd" "c1 \<in> set encodeStd" "c2 \<in> set encodeStd"
  shows "quantumLoop len si 0 [0, 0, 0, 0] [c0, c1, c2, CHR ''=''] =
           (si + 4, [], quantumBytes [decodeMap c0, decodeMap c1, decodeMap c2, 0] 3, None)"
proof -
  have "quantumLoop len si 0 [0, 0, 0, 0] [c0, c1, c2, CHR ''=''] =
          quantumLoop len (Suc si) 1 [decodeMap c0, 0, 0, 0] [c1, c2, CHR ''='']"
    using step_alpha [OF assms(1), of 0 len si "[0, 0, 0, 0]"] by simp
  also have "\<dots> = quantumLoop len (Suc (Suc si)) 2 [decodeMap c0, decodeMap c1, 0, 0] [c2, CHR ''='']"
    using step_alpha [OF assms(2), of 1 len "Suc si" "[decodeMap c0, 0, 0, 0]"]
    by (simp add: eval_nat_numeral)
  also have "\<dots> = quantumLoop len (Suc (Suc (Suc si))) 3
                       [decodeMap c0, decodeMap c1, decodeMap c2, 0] [CHR ''='']"
    using step_alpha [OF assms(3), of 2 len "Suc (Suc si)" "[decodeMap c0, decodeMap c1, 0, 0]"]
    by (simp add: eval_nat_numeral)
  also have "\<dots> = (si + 4, [], quantumBytes [decodeMap c0, decodeMap c1, decodeMap c2, 0] 3, None)"
    using step_pad3_end [of "[]" len "Suc (Suc (Suc si))" "[decodeMap c0, decodeMap c1, decodeMap c2, 0]"]
    by (simp del: quantumLoop.simps)
  finally show ?thesis .
qed

lemma quantum_two:
  assumes "c0 \<in> set encodeStd" "c1 \<in> set encodeStd"
  shows "quantumLoop len si 0 [0, 0, 0, 0] [c0, c1, CHR ''='', CHR ''=''] =
           (si + 4, [], quantumBytes [decodeMap c0, decodeMap c1, 0, 0] 2, None)"
proof -
  have "quantumLoop len si 0 [0, 0, 0, 0] [c0, c1, CHR ''='', CHR ''=''] =
          quantumLoop len (Suc si) 1 [decodeMap c0, 0, 0, 0] [c1, CHR ''='', CHR ''='']"
    using step_alpha [OF assms(1), of 0 len si "[0, 0, 0, 0]"] by simp
  also have "\<dots> = quantumLoop len (Suc (Suc si)) 2 [decodeMap c0, decodeMap c1, 0, 0]
                       [CHR ''='', CHR ''='']"
    using step_alpha [OF assms(2), of 1 len "Suc si" "[decodeMap c0, 0, 0, 0]"]
    by (simp add: eval_nat_numeral)
  also have "\<dots> = (si + 4, [], quantumBytes [decodeMap c0, decodeMap c1, 0, 0] 2, None)"
    using step_pad2_end [of "[CHR ''='']" "[]" len "Suc (Suc si)" "[decodeMap c0, decodeMap c1, 0, 0]"]
    by (simp add: pad_not_newline del: quantumLoop.simps)
  finally show ?thesis .
qed

lemma Decode_step:
  assumes "quantumLoop len si 0 [0, 0, 0, 0] cs = (si', cs', out, None)" and "cs \<noteq> []"
  shows "Decode len si cs = (out @ fst (Decode len si' cs'), snd (Decode len si' cs'))"
  using assms by (subst Decode.simps) (simp add: decodeQuantum_def split: prod.splits)

lemma Decode_EncodeToString: "Decode len si (EncodeToString d) = (d, None)"
proof (induction d arbitrary: si rule: EncodeToString.induct)
  case 1
  show ?case by (simp add: Decode_Nil)
next
  case (2 a)
  let ?v = "val3 a (CHR 0x00) (CHR 0x00)"
  have v: "push_bit 16 (of_char a :: nat) = ?v" by (simp add: val3_def)
  have lo: "\<not> bit ?v n" if "n < 16" for n
    using that by (auto simp: val3_def bit_simps)
  have "quantumBytes [and (drop_bit 18 ?v) 63, and (drop_bit 12 ?v) 63, 0, 0] 2 = [a]"
    using recombine2 [of ?v, OF val3_hi lo] val3_bytes(1) [of a "CHR 0x00" "CHR 0x00"]
    by (simp add: quantumBytes_def)
  then show ?case
    using Decode_step [OF quantum_two [OF encodeStd_nth_in encodeStd_nth_in]]
    by (simp add: v Let_def decodeMap_sextet Decode_Nil)
next
  case (3 a b)
  let ?v = "val3 a b (CHR 0x00)"
  have v: "or (push_bit 16 (of_char a :: nat)) (push_bit 8 (of_char b)) = ?v" by (simp add: val3_def)
  have lo: "\<not> bit ?v n" if "n < 8" for n
    using that by (auto simp: val3_def bit_simps)
  have "quantumBytes [and (drop_bit 18 ?v) 63, and (drop_bit 12 ?v) 63, and (drop_bit 6 ?v) 63, 0] 3 = [a, b]"
    using recombine3 [of ?v, OF val3_hi lo] val3_bytes(1,2) [of a b "CHR 0x00"]
    by (simp add: quantumBytes_def)
  then show ?case
    using Decode_step [OF quantum_three [OF encodeStd_nth_in encodeStd_nth_in encodeStd_nth_in]]
    by (simp add: v Let_def decodeMap_sextet Decode_Nil)
next
  case (4 a b c rest)
  let ?v = "val3 a b c"
  have "quantumBytes [and (drop_bit 18 ?v) 63, and (drop_bit 12 ?v) 63, and (drop_bit 6 ?v) 63,
                      and ?v 63] 4 = [a, b, c]"
    using recombine [of ?v, OF val3_hi] val3_bytes [of a b c]
    by (simp add: quantumBytes_def)
  then show ?case
    using Decode_step [OF quantum_full
        [OF encodeStd_nth_in encodeStd_nth_in encodeStd_nth_in encodeStd_nth_in]]
      "4.IH" [OF refl, of "si + 4"]
    by (simp add: val3_def [symmetric] Let_def decodeMap_sextet)
qed

lemma DecodeString_EncodeToString: "DecodeString (EncodeToString d) = (d, None)"
  by (simp add: DecodeString_def Decode_EncodeToString)


subsection \<open>The argument list of \<^verbatim>\<open>Sign\<close>\<close>

text \<open>
  C1. For a signer whose cached public key is an RSA key and a requested hash among
  SHA-256, SHA-384 and SHA-512, the argument list built by \<^verbatim>\<open>Sign\<close> is exactly
  \<^verbatim>\<open>sign --format base64\<close>, then \<^verbatim>\<open>--kms\<close> and the kms if and only if the kms is not
  empty, then \<^verbatim>\<open>--pss\<close> if and only if the options are PSS options, then \<^verbatim>\<open>--alg\<close> and
  the name SHA256, SHA384 or SHA512 of the hash, then the key. For a public key that is
  not an RSA key the list has no \<^verbatim>\<open>--pss\<close> and no \<^verbatim>\<open>--alg\<close>, whatever the options.
\<close>

theorem Sign_args_exact:
  "(PublicKey s = RSAPublicKey n ex \<longrightarrow> HashFunc opts = Some h \<longrightarrow>
      h = SHA256 \<or> h = SHA384 \<or> h = SHA512 \<longrightarrow>
      Sign_args e s opts =
        Inr ([''sign'', ''--format'', ''base64'']
             @ (if kms s \<noteq> [] then [''--kms'', kms s] else [])
             @ (if is_PSSOptions opts then [''--pss''] else [])
             @ [''--alg'',
                if h = SHA256 then ''SHA256'' else if h = SHA384 then ''SHA384'' else ''SHA512'']
             @ [key s]))
   \<and> ((\<forall>n ex. PublicKey s \<noteq> RSAPublicKey n ex) \<longrightarrow>
      Sign_args e s opts =
        Inr ([''sign'', ''--format'', ''base64'']
             @ (if kms s \<noteq> [] then [''--kms'', kms s] else [])
             @ [key s]))"
  by (cases "PublicKey s") (auto simp: Sign_args_def SHA256_def SHA384_def SHA512_def)

theorem Sign_args_exact_witness:
  "Sign_args stubEnv rsaSigner (PSSOptions 32 SHA384) =
     Inr [''sign'', ''--format'', ''base64'', ''--kms'', ''pkcs11:m'', ''--pss'',
          ''--alg'', ''SHA384'', ''k1'']
   \<and> Sign_args stubEnv edSigner (PSSOptions 32 SHA384) =
     Inr [''sign'', ''--format'', ''base64'', ''k2'']"
  using Sign_args_exact [of rsaSigner 3233 17 "PSSOptions 32 SHA384" SHA384 stubEnv]
    Sign_args_exact [of edSigner 0 0 "PSSOptions 32 SHA384" SHA384 stubEnv]
  by (simp add: rsaSigner_def edSigner_def SHA256_def SHA384_def SHA512_def)

text \<open>
  When the pipe is set up, the child process that \<^verbatim>\<open>Sign\<close> starts has the plugin path
  and exactly this argument list, and is offered the digest on its standard input.
\<close>

lemma Sign_starts_child:
  assumes "deref w p = Some s" and "Sign_args e s opts = Inr args"
    and "StdinPipe e (exec_Command (name s) args) = None"
  shows "procs (snd (Sign e p rand digest opts w)) =
           procs w @ [(\<lparr>Path = name s, Args = name s # args\<rparr>, digest)]"
  using assms
  by (simp add: Sign_def Let_def exec_Command_def split: sum.splits prod.splits option.splits)

text \<open>
  C2. For a signer whose cached public key is an RSA key and a requested hash other than
  SHA-256, SHA-384 and SHA-512, \<^verbatim>\<open>Sign\<close> returns an error whose message names the hash
  (the text of \<^verbatim>\<open>Hash.String\<close> between double quotes), and the state is the one before the
  call: no child process has been started.
\<close>

theorem Sign_unsupported_hash:
  assumes "deref w p = Some s" and "PublicKey s = RSAPublicKey n ex"
    and "HashFunc opts = Some h" and "h \<noteq> SHA256" and "h \<noteq> SHA384" and "h \<noteq> SHA512"
  shows "Sign e p rand digest opts w =
           ((None, Some (Err (errorString
              (''unsupported hash function '' @ [CHR 0x22] @ Hash_String h @ [CHR 0x22])))), w)
         \<and> procs (snd (Sign e p rand digest opts w)) = procs w"
  using assms quote_plain [OF plain_Hash_String, of e h]
  by (simp add: Sign_def Sign_args_def)

theorem Sign_unsupported_hash_witness:
  "Sign stubEnv 0 [] ''digest'' (HashOpts 3) world0 =
     ((None, Some (Err (errorString
        (''unsupported hash function '' @ [CHR 0x22] @ ''SHA-1'' @ [CHR 0x22])))), world0)
   \<and> procs (snd (Sign stubEnv 0 [] ''digest'' (HashOpts 3) world0)) = []"
  using Sign_unsupported_hash
    [of world0 0 rsaSigner 3233 17 "HashOpts 3" 3 stubEnv "[]" "''digest''"]
  by (simp add: world0_def rsaSigner_def deref_def SHA256_def SHA384_def SHA512_def
        Hash_String_def)

text \<open>
  C3, as the specification states it: with PSS options and an RSA key, \<^verbatim>\<open>--pss\<close> comes
  after \<^verbatim>\<open>--alg\<close>. It does not: \<^verbatim>\<open>--pss\<close> is appended before \<^verbatim>\<open>--alg\<close>.
\<close>

theorem pss_after_alg_counterexample:
  "Sign_args stubEnv rsaSigner (PSSOptions 32 SHA256) =
     Inr [''sign'', ''--format'', ''base64'', ''--kms'', ''pkcs11:m'', ''--pss'',
          ''--alg'', ''SHA256'', ''k1'']
   \<and> \<not> occurs_before ''--alg'' ''--pss''
        [''sign'', ''--format'', ''base64'', ''--kms'', ''pkcs11:m'', ''--pss'',
         ''--alg'', ''SHA256'', ''k1'']"
  by (simp add: Sign_args_def rsaSigner_def SHA256_def)

text \<open>
  C3, amended: with PSS options, an RSA key and a supported hash, \<^verbatim>\<open>--pss\<close> comes right
  after \<^verbatim>\<open>sign --format base64\<close> and the \<^verbatim>\<open>--kms\<close> flag with its value (when there is
  one), and right before \<^verbatim>\<open>--alg\<close>, its value and the key, which is last.
\<close>

theorem pss_position:
  assumes "PublicKey s = RSAPublicKey n ex" and "is_PSSOptions opts"
    and "HashFunc opts = Some h" and "h = SHA256 \<or> h = SHA384 \<or> h = SHA512"
  shows "Sign_args e s opts =
           Inr (([''sign'', ''--format'', ''base64'']
                 @ (if kms s \<noteq> [] then [''--kms'', kms s] else []))
                @ [''--pss'']
                @ [''--alg'',
                   if h = SHA256 then ''SHA256'' else if h = SHA384 then ''SHA384'' else ''SHA512'',
                   key s])"
  using assms by (auto simp: Sign_args_def SHA256_def SHA384_def SHA512_def)

theorem pss_position_witness:
  "Sign_args stubEnv rsaSigner (PSSOptions 32 SHA256) =
     Inr (([''sign'', ''--format'', ''base64''] @ [''--kms'', ''pkcs11:m''])
          @ [''--pss''] @ [''--alg'', ''SHA256'', ''k1''])"
  using pss_position [of rsaSigner 3233 17 "PSSOptions 32 SHA256" SHA256 stubEnv]
  by (simp add: rsaSigner_def SHA256_def)

subsection \<open>Failure of the plugin\<close>



subsection \<open>The predicates\<close>

text \<open>
  C5. \<^verbatim>\<open>IsX509Signer\<close>: for a \<^verbatim>\<open>kmsSigner\<close> whose kms, in lower case, begins with
  \<^verbatim>\<open>sshagentkms:\<close>, the result is true if and only if the public key is an Ed25519 key;
  for a \<^verbatim>\<open>kmsSigner\<close> with another kms and for every other signer, it is true if and only
  if the public key is an ECDSA, an RSA or an Ed25519 key.
\<close>

theorem IsX509Signer_cases:
  "(deref w p = Some ks \<longrightarrow> prefix ''sshagentkms:'' (strings_ToLower e (kms ks)) \<longrightarrow>
      IsX509Signer e w (kmsSignerPtr p) = Inr (\<exists>b. PublicKey ks = Ed25519PublicKey b))
   \<and> (deref w p = Some ks \<longrightarrow> \<not> prefix ''sshagentkms:'' (strings_ToLower e (kms ks)) \<longrightarrow>
      IsX509Signer e w (kmsSignerPtr p) =
        Inr ((\<exists>c x y. PublicKey ks = ECDSAPublicKey c x y)
             \<or> (\<exists>n ex. PublicKey ks = RSAPublicKey n ex)
             \<or> (\<exists>b. PublicKey ks = Ed25519PublicKey b)))
   \<and> IsX509Signer e w (otherSigner k pub) =
        Inr ((\<exists>c x y. pub = ECDSAPublicKey c x y) \<or> (\<exists>n ex. pub = RSAPublicKey n ex)
             \<or> (\<exists>b. pub = Ed25519PublicKey b))"
  by (cases "PublicKey ks"; cases pub) (auto simp: IsX509Signer_def Public_def)

theorem IsX509Signer_cases_witness:
  "IsX509Signer stubEnv world0 (kmsSignerPtr 2) = Inr False
   \<and> IsX509Signer stubEnv world0 (kmsSignerPtr 3) = Inr True
   \<and> IsX509Signer stubEnv world0 (kmsSignerPtr 0) = Inr True
   \<and> IsX509Signer stubEnv world0 (otherSigner ''priv'' (OtherValue ''x25519.PublicKey''))
       = Inr False"
proof -
  have l: "strings_ToLower stubEnv ''SSHAgentKMS:'' = ''sshagentkms:''" by code_simp
  have l2: "strings_ToLower stubEnv ''pkcs11:m'' = ''pkcs11:m''" by code_simp
  show ?thesis
    using IsX509Signer_cases [of world0 2 agentSigner stubEnv "''priv''"
        "OtherValue ''x25519.PublicKey''"]
      IsX509Signer_cases [of world0 3 agentEdSigner stubEnv "''priv''"
        "OtherValue ''x25519.PublicKey''"]
      IsX509Signer_cases [of world0 0 rsaSigner stubEnv "''priv''"
        "OtherValue ''x25519.PublicKey''"]
      l l2
    by (simp add: world0_def deref_def agentSigner_def agentEdSigner_def rsaSigner_def)
qed

subsection \<open>\<^verbatim>\<open>CreateSigner\<close> without a kms\<close>

text \<open>
  C6. With an empty kms, \<^verbatim>\<open>CreateSigner\<close> returns what \<^verbatim>\<open>pemutil.Read\<close> returns for the
  name and the options: its error when it fails, the value read when that value is a
  signer, and otherwise (the file was read, but holds no private key) an error and no
  signer.
\<close>

theorem CreateSigner_file:
  "(pemutil_Read e name' opts = Inl err \<longrightarrow>
      fst (CreateSigner e [] name' opts w) = Inl (Err err))
   \<and> (pemutil_Read e name' opts = Inr (SignerImpl k pub) \<longrightarrow>
      fst (CreateSigner e [] name' opts w) = Inr (otherSigner k pub))
   \<and> (pemutil_Read e name' opts = Inr v \<longrightarrow> (\<forall>k pub. v \<noteq> SignerImpl k pub) \<longrightarrow>
      fst (CreateSigner e [] name' opts w) =
        Inl (Err (errorString (''file '' @ name' @ '' does not contain a valid private key''))))"
  by (cases v) (auto simp: CreateSigner_def)

theorem CreateSigner_file_witness:
  "fst (CreateSigner stubEnv [] ''none.pem'' [] world0)
     = Inl (Err (errorString ''open: no such file or directory''))
   \<and> fst (CreateSigner stubEnv [] ''key.pem'' [] world0)
     = Inr (otherSigner ''priv'' (Ed25519PublicKey ''pk''))
   \<and> fst (CreateSigner stubEnv [] ''cert.pem'' [] world0)
     = Inl (Err (errorString ''file cert.pem does not contain a valid private key''))"
  using CreateSigner_file [where e = stubEnv and name' = "''none.pem''" and opts = "[]"
      and err = "errorString ''open: no such file or directory''" and w = world0
      and v = "OtherValue ''*x509.Certificate''"]
    CreateSigner_file [where e = stubEnv and name' = "''key.pem''" and opts = "[]"
      and k = "''priv''" and pub = "Ed25519PublicKey ''pk''" and w = world0
      and v = "OtherValue ''*x509.Certificate''"]
    CreateSigner_file [where e = stubEnv and name' = "''cert.pem''" and opts = "[]"
      and w = world0 and v = "OtherValue ''*x509.Certificate''"]
  by (simp add: stubEnv_def)

text \<open>
  C7. With an empty kms, \<^verbatim>\<open>CreateSigner\<close> leaves the state as it was, whatever
  \<^verbatim>\<open>pemutil.Read\<close> returns: \<^verbatim>\<open>plugin.LookPath\<close> is not called and no child process is
  started.
\<close>

theorem CreateSigner_file_no_process:
  "snd (CreateSigner e [] name' opts w) = w
   \<and> lookups (snd (CreateSigner e [] name' opts w)) = lookups w
   \<and> procs (snd (CreateSigner e [] name' opts w)) = procs w"
  by (simp add: CreateSigner_def split: sum.splits any.splits)

theorem CreateSigner_file_no_process_witness:
  "snd (CreateSigner stubEnv [] ''key.pem'' [] world0) = world0
   \<and> lookups (snd (CreateSigner stubEnv [] ''cert.pem'' [] world0)) = []
   \<and> procs (snd (CreateSigner stubEnv [] ''none.pem'' [] world0)) = []"
  using CreateSigner_file_no_process [of stubEnv "''key.pem''" "[]" world0]
    CreateSigner_file_no_process [of stubEnv "''cert.pem''" "[]" world0]
    CreateSigner_file_no_process [of stubEnv "''none.pem''" "[]" world0]
  by (simp add: world0_def)

text \<open>With a kms, on the other hand, the lookup and the child process are recorded.\<close>

lemma newKMSSigner_looks_up:
  "lookups (snd (newKMSSigner e kms' key' w)) = lookups w @ [''kms'']"
  by (simp add: newKMSSigner_def Let_def split: sum.splits)

lemma newKMSSigner_starts_child:
  "plugin_LookPath e ''kms'' = Inr path \<Longrightarrow>
   procs (snd (newKMSSigner e kms' key' w)) =
     procs w @ [(\<lparr>Path = path,
                  Args = path # [''key'']
                         @ (if kms' \<noteq> [] then [''--kms'', kms'] else []) @ [key']\<rparr>, [])]"
  by (simp add: newKMSSigner_def Let_def exec_Command_def split: sum.splits)

subsection \<open>The signature\<close>

text \<open>
  C8, as the specification states it: when the standard output of the child is not
  well-formed base64, \<^verbatim>\<open>Sign\<close> returns a decode error and no signature. It does not: for
  the output \<^verbatim>\<open>AAAA@\<close> it returns the error together with the three bytes decoded from
  \<^verbatim>\<open>AAAA\<close>.
\<close>

lemma DecodeString_partial:
  "DecodeString ''AAAA@'' = ([CHR 0x00, CHR 0x00, CHR 0x00], Some (CorruptInputError 4))"
proof -
  have A: "CHR ''A'' \<in> set encodeStd" by (simp add: encodeStd_def)
  have dA: "decodeMap CHR ''A'' = 0"
    using decodeMap_encodeStd [of 0] by (simp add: encodeStd_def)
  have z: "char_of (0::nat) = CHR 0x00" by code_simp
  have bytes: "quantumBytes [0, 0, 0, 0] 4 = [CHR 0x00, CHR 0x00, CHR 0x00]"
    by (simp add: quantumBytes_def z)
  have at: "CHR ''@'' \<notin> set encodeStd" by (simp add: encodeStd_def)
  have "quantumLoop 5 4 0 [0, 0, 0, 0] ''@'' = (5, [], [], Some (CorruptInputError 4))"
    using step_bad [OF at, of 0 5 4 "[0, 0, 0, 0]" "[]"] by (simp add: isNewline_def)
  then have rest: "Decode 5 4 ''@'' = ([], Some (CorruptInputError 4))"
    by (subst Decode.simps) (simp add: decodeQuantum_def)
  have "Decode 5 0 ''AAAA@'' =
          (quantumBytes [0, 0, 0, 0] 4 @ fst (Decode 5 4 ''@''), snd (Decode 5 4 ''@''))"
    using Decode_step [OF quantum_full [OF A A A A, of 5 0 "''@''"]] by (simp add: dA)
  then have d: "Decode 5 0 ''AAAA@'' =
      ([CHR 0x00, CHR 0x00, CHR 0x00], Some (CorruptInputError 4))"
    by (simp add: bytes rest)
  have len: "length ''AAAA@'' = 5" by simp
  show ?thesis unfolding DecodeString_def len by (rule d)
qed

theorem Sign_decode_error_counterexample:
  "\<not> wellFormedBase64 ''AAAA@''
   \<and> fst (Sign partialEnv 1 [] ''hello'' (HashOpts 0) world0) =
       (Some [CHR 0x00, CHR 0x00, CHR 0x00], Some (Err (CorruptInputError 4)))
   \<and> fst (fst (Sign partialEnv 1 [] ''hello'' (HashOpts 0) world0)) \<noteq> None"
proof -
  have "\<not> wellFormedBase64 ''AAAA@''"
    by (simp add: wellFormedBase64_def isNewline_def encodeStd_def)
  moreover have "fst (Sign partialEnv 1 [] ''hello'' (HashOpts 0) world0) =
       (Some [CHR 0x00, CHR 0x00, CHR 0x00], Some (Err (CorruptInputError 4)))"
    by (simp add: Sign_def Sign_args_def world0_def deref_def edSigner_def partialEnv_def
          stubEnv_def DecodeString_partial)
  ultimately show ?thesis by simp
qed

text \<open>
  C8, amended. For a signer whose public key is not an RSA key: when the child process
  exits with success and its standard output is the base64 text of the digest offered on
  its standard input, \<^verbatim>\<open>Sign\<close> returns exactly the digest and no error. For any signer:
  when the child process exits with success and its standard output is not well-formed
  base64, \<^verbatim>\<open>Sign\<close> returns the \<^verbatim>\<open>CorruptInputError\<close> of the decoder, together with the
  bytes that the decoder produced before the error.
\<close>

theorem Sign_base64:
  "(deref w p = Some s \<longrightarrow> (\<forall>n ex. PublicKey s \<noteq> RSAPublicKey n ex) \<longrightarrow>
      Sign_args e s opts = Inr args \<longrightarrow>
      StdinPipe e (exec_Command (name s) args) = None \<longrightarrow>
      Output e (length (procs w)) (exec_Command (name s) args) digest
        = Inr (EncodeToString digest) \<longrightarrow>
      fst (Sign e p rand digest opts w) = (Some digest, None))
   \<and> (deref w p = Some s \<longrightarrow> Sign_args e s opts = Inr args \<longrightarrow>
      StdinPipe e (exec_Command (name s) args) = None \<longrightarrow>
      Output e (length (procs w)) (exec_Command (name s) args) digest = Inr out \<longrightarrow>
      \<not> wellFormedBase64 out \<longrightarrow>
      (\<exists>n. fst (Sign e p rand digest opts w) =
             (Some (fst (DecodeString out)), Some (Err (CorruptInputError n)))))"
proof (intro conjI impI)
  assume "deref w p = Some s" "Sign_args e s opts = Inr args"
    "StdinPipe e (exec_Command (name s) args) = None"
    "Output e (length (procs w)) (exec_Command (name s) args) digest = Inr (EncodeToString digest)"
  then show "fst (Sign e p rand digest opts w) = (Some digest, None)"
    by (simp add: Sign_def Let_def DecodeString_EncodeToString)
next
  assume a: "deref w p = Some s" "Sign_args e s opts = Inr args"
    "StdinPipe e (exec_Command (name s) args) = None"
    "Output e (length (procs w)) (exec_Command (name s) args) digest = Inr out"
    and nwf: "\<not> wellFormedBase64 out"
  from nwf DecodeString_ok_iff [of out] obtain err where e: "snd (DecodeString out) = Some err"
    by (cases "snd (DecodeString out)") auto
  then have "snd (Decode (length out) 0 out) = Some err" by (simp add: DecodeString_def)
  from Decode_error_kind [OF this] obtain n where "err = CorruptInputError n" ..
  with e a have "fst (Sign e p rand digest opts w) =
      (Some (fst (DecodeString out)), Some (Err (CorruptInputError n)))"
    by (cases "DecodeString out") (simp add: Sign_def Let_def)
  then show "\<exists>n. fst (Sign e p rand digest opts w) =
      (Some (fst (DecodeString out)), Some (Err (CorruptInputError n)))" ..
qed

theorem Sign_base64_witness:
  "fst (Sign stubEnv 1 [] ''hello'' (HashOpts 0) world0) = (Some ''hello'', None)
   \<and> (\<exists>n. fst (Sign partialEnv 1 [] ''hello'' (HashOpts 0) world0) =
            (Some (fst (DecodeString ''AAAA@'')), Some (Err (CorruptInputError n))))"
proof -
  have nwf: "\<not> wellFormedBase64 ''AAAA@''"
    by (simp add: wellFormedBase64_def isNewline_def encodeStd_def)
  show ?thesis
    using Sign_base64 [of world0 1 edSigner stubEnv "HashOpts 0"
        "[''sign'', ''--format'', ''base64'', ''k2'']" "''hello''" "[]" "''AAAA@''"]
      Sign_base64 [of world0 1 edSigner partialEnv "HashOpts 0"
        "[''sign'', ''--format'', ''base64'', ''k2'']" "''hello''" "[]" "''AAAA@''"]
      nwf
    by (simp add: world0_def deref_def edSigner_def Sign_args_def stubEnv_def partialEnv_def)
qed

subsection \<open>The signer does not change\<close>

lemma Sign_heap: "heap (snd (Sign e p rand digest opts w)) = heap w"
  by (simp add: Sign_def Let_def split: option.splits sum.splits prod.splits)

lemma newKMSSigner_heap:
  "\<exists>new. heap (snd (newKMSSigner e kms' key' w)) = heap w @ new"
  by (simp add: newKMSSigner_def Let_def split: sum.splits)

lemma CreateSigner_heap:
  "\<exists>new. heap (snd (CreateSigner e kms' name' opts w)) = heap w @ new"
  using newKMSSigner_heap [of e kms' name' w]
  by (simp add: CreateSigner_def split: sum.splits any.splits)

lemma invoke_deref:
  assumes "deref w p = Some s"
  shows "deref (invoke e w c) p = Some s"
proof (cases c)
  case (Call_Sign q rand digest opts)
  then show ?thesis
    using assms Sign_heap [of e q rand digest opts w] by (simp add: deref_def split: if_splits)
next
  case (Call_CreateSigner kms' name' opts)
  obtain new where "heap (snd (CreateSigner e kms' name' opts w)) = heap w @ new"
    using CreateSigner_heap by blast
  then show ?thesis
    using assms Call_CreateSigner by (auto simp: deref_def nth_append split: if_splits)
qed (use assms in simp_all)

lemma run_deref:
  "deref w p = Some s \<Longrightarrow> deref (run e w calls) p = Some s"
  unfolding run_def
  by (induction calls arbitrary: w) (simp_all add: invoke_deref)

lemma Sign_started:
  assumes "deref w1 p = deref w2 p"
  shows "drop (length (procs w1)) (procs (snd (Sign e p rand digest opts w1))) =
         drop (length (procs w2)) (procs (snd (Sign e p rand digest opts w2)))"
  using assms
  by (simp add: Sign_def Let_def split: option.splits sum.splits prod.splits)


text \<open>
  C9. A \<^verbatim>\<open>kmsSigner\<close> is not modified after its construction: after any sequence of
  calls of \<^verbatim>\<open>Public\<close>, \<^verbatim>\<open>Sign\<close>, \<^verbatim>\<open>IsKMSSigner\<close>, \<^verbatim>\<open>IsX509Signer\<close> (on this or on any
  other signer) and of \<^verbatim>\<open>CreateSigner\<close>, the pointer still leads to the same four fields,
  \<^verbatim>\<open>Public\<close> returns the public key it held before, and a \<^verbatim>\<open>Sign\<close> with the same digest
  and options starts a child process with the same command (path and argument list) and
  the same input as it would have before, or none in both cases.
\<close>

theorem kmsSigner_immutable:
  assumes "deref w p = Some s"
  shows "deref (run e w calls) p = Some s
         \<and> Public (run e w calls) p = Inr (PublicKey s)
         \<and> drop (length (procs (run e w calls)))
                 (procs (snd (Sign e p rand digest opts (run e w calls)))) =
             drop (length (procs w)) (procs (snd (Sign e p rand digest opts w)))"
proof -
  from run_deref [OF assms] have d: "deref (run e w calls) p = Some s" .
  then have "deref (run e w calls) p = deref w p" using assms by simp
  from Sign_started [OF this] d show ?thesis by (simp add: Public_def)
qed

theorem kmsSigner_immutable_witness:
  "deref (run stubEnv world0
            [Call_Sign 0 [] ''d1'' (HashOpts SHA256), Call_CreateSigner ''pkcs11:m'' ''k9'' [],
             Call_IsX509Signer (kmsSignerPtr 0), Call_Sign 1 [] ''d2'' (HashOpts 0)]) 0 = Some rsaSigner
   \<and> Public (run stubEnv world0
            [Call_Sign 0 [] ''d1'' (HashOpts SHA256), Call_CreateSigner ''pkcs11:m'' ''k9'' [],
             Call_IsX509Signer (kmsSignerPtr 0), Call_Sign 1 [] ''d2'' (HashOpts 0)]) 0
       = Inr (RSAPublicKey 3233 17)"
  using kmsSigner_immutable [of world0 0 rsaSigner stubEnv
      "[Call_Sign 0 [] ''d1'' (HashOpts SHA256), Call_CreateSigner ''pkcs11:m'' ''k9'' [],
        Call_IsX509Signer (kmsSignerPtr 0), Call_Sign 1 [] ''d2'' (HashOpts 0)]"]
  by (simp add: world0_def deref_def rsaSigner_def)


text \<open>The fields are those that \<^verbatim>\<open>newKMSSigner\<close> stored at construction.\<close>

lemma newKMSSigner_allocates:
  assumes "newKMSSigner e kms' key' w = (Inr signer, w')"
  shows "\<exists>path out pub.
           plugin_LookPath e ''kms'' = Inr path \<and> pemutil_Parse e out = Inr pub
           \<and> signer = kmsSignerPtr (length (heap w))
           \<and> deref w' (length (heap w)) =
               Some \<lparr>PublicKey = pub, name = path, kms = kms', key = key'\<rparr>"
  using assms
  by (auto simp: newKMSSigner_def Let_def deref_def split: sum.splits)


text \<open>
  C10. \<^verbatim>\<open>Sign\<close> does not read \<open>rand\<close>: two calls that differ only in the reader return
  the same signature or error and lead to the same state, so they start the same child
  process, with the same argument list and the same bytes on its standard input.
\<close>

theorem Sign_ignores_rand:
  "Sign e p rand1 digest opts w = Sign e p rand2 digest opts w"
  by (simp add: Sign_def)

theorem Sign_ignores_rand_witness:
  "Sign stubEnv 1 ''aaaa'' ''hello'' (HashOpts 0) world0 =
   Sign stubEnv 1 ''bbbb'' ''hello'' (HashOpts 0) world0"
  by (rule Sign_ignores_rand)

end
